theory Spec2Isabelle
  imports Main "HOL-Library.Char_ord" "HOL-Library.List_Lexorder" "HOL-Library.Product_Lexorder"
    "HOL-Library.AList"
begin

section \<open>Text, characters and the regular expressions of the analyzer\<close>

text \<open>
  A Python \<open>str\<close> is modelled as a \<^typ>\<open>string\<close>, one \<^typ>\<open>char\<close> per character of the
  text (code points 0 to 255). The text of a file is what reading it in text mode
  gives, with every line ending already turned into a newline. Iterating over the
  opened file yields its lines, each one still carrying its terminating newline; only
  a last line that the file does not terminate comes without one.
\<close>

definition newline :: char where
  "newline = CHR 0x0A"

fun file_lines_from :: "string \<Rightarrow> string \<Rightarrow> string list" where
  "file_lines_from cur [] = (if cur = [] then [] else [cur])"
| "file_lines_from cur (c # cs) =
     (if c = newline then (cur @ [c]) # file_lines_from [] cs
      else file_lines_from (cur @ [c]) cs)"

definition file_lines :: "string \<Rightarrow> string list" where
  "file_lines text = file_lines_from [] text"

text \<open>
  The character classes of \<open>re\<close> on \<open>str\<close> patterns: \<open>\s\<close> is every character that
  \<open>str.isspace\<close> accepts, \<open>\w\<close> every alphanumeric character and the underscore.
\<close>

definition is_space :: "char \<Rightarrow> bool" where
  "is_space c = (let n = (of_char c :: nat) in
     (9 \<le> n \<and> n \<le> 13) \<or> (28 \<le> n \<and> n \<le> 32) \<or> n = 133 \<or> n = 160)"

definition is_lower :: "char \<Rightarrow> bool" where
  "is_lower c = (let n = (of_char c :: nat) in 97 \<le> n \<and> n \<le> 122)"

definition is_upper :: "char \<Rightarrow> bool" where
  "is_upper c = (let n = (of_char c :: nat) in 65 \<le> n \<and> n \<le> 90)"

definition is_digit :: "char \<Rightarrow> bool" where
  "is_digit c = (let n = (of_char c :: nat) in 48 \<le> n \<and> n \<le> 57)"

definition is_word :: "char \<Rightarrow> bool" where
  "is_word c = (let n = (of_char c :: nat) in
     is_lower c \<or> is_upper c \<or> is_digit c \<or> c = CHR ''_''
     \<or> n = 170 \<or> n = 178 \<or> n = 179 \<or> n = 181 \<or> n = 185 \<or> n = 186
     \<or> (188 \<le> n \<and> n \<le> 190) \<or> (192 \<le> n \<and> n \<le> 214)
     \<or> (216 \<le> n \<and> n \<le> 246) \<or> (248 \<le> n \<and> n \<le> 255))"

text \<open>\<open>$\<close> matches at the end of the text and just before a newline that ends it.\<close>

definition at_end :: "string \<Rightarrow> bool" where
  "at_end s = (s = [] \<or> s = [newline])"

definition startswith :: "string \<Rightarrow> string \<Rightarrow> bool" where
  "startswith s p = (take (length p) s = p)"

definition endswith :: "string \<Rightarrow> string \<Rightarrow> bool" where
  "endswith s p = (length p \<le> length s \<and> drop (length s - length p) s = p)"

definition lstrip_spaces :: "string \<Rightarrow> string" where
  "lstrip_spaces s = dropWhile (\<lambda>c. c = CHR '' '') s"

definition rstrip_spaces :: "string \<Rightarrow> string" where
  "rstrip_spaces s = rev (dropWhile (\<lambda>c. c = CHR '' '') (rev s))"

section \<open>The line rules\<close>

type_synonym diagnostic = "nat \<times> string"

text \<open>S001: \<open>len(line) > 79\<close>.\<close>

definition line_length_check :: "nat \<Rightarrow> string \<Rightarrow> diagnostic option" where
  "line_length_check line_number line =
     (if length line > 79 then Some (line_number, ''S001 Too long'') else None)"

text \<open>S002: the number of leading spaces is neither 0 nor a multiple of four.\<close>

definition indentation_check :: "nat \<Rightarrow> string \<Rightarrow> diagnostic option" where
  "indentation_check line_number line =
     (let indents = length line - length (lstrip_spaces line)
      in if indents mod 4 \<noteq> 0 \<and> indents \<noteq> 0
         then Some (line_number, ''S002 Indentation is not a multiple of four'')
         else None)"

text \<open>
  S003: \<open>re.sub("(?s)#.*", "", line)\<close> cuts the line at its first \<open>#\<close>, \<open>rstrip(" ")\<close>
  removes the spaces at the end, and \<open>re.search(";$", line)\<close> finds a semicolon at
  the end of what is left, or just before a newline that ends it.
\<close>

definition semicolon_check :: "nat \<Rightarrow> string \<Rightarrow> diagnostic option" where
  "semicolon_check line_number line =
     (let line1 = takeWhile (\<lambda>c. c \<noteq> CHR ''#'') line;
          line2 = rstrip_spaces line1
      in if endswith line2 '';'' \<or> endswith line2 ('';'' @ [newline])
         then Some (line_number, ''S003 Unnecessary semicolon after a statement'')
         else None)"

text \<open>
  S004: \<open>re.findall("\S *#", line)[0]\<close> is the leftmost match of a character that is not
  whitespace, any number of spaces and a \<open>#\<close>. No match at all is the IndexError that the
  rule catches. \<open>re.findall("( )", comment)\<close> lists the spaces of the match.
\<close>

fun findall_comment_first :: "string \<Rightarrow> string option" where
  "findall_comment_first [] = None"
| "findall_comment_first (c # cs) =
     (if \<not> is_space c \<and> startswith (lstrip_spaces cs) ''#''
      then Some (c # takeWhile (\<lambda>c. c = CHR '' '') cs @ ''#'')
      else findall_comment_first cs)"

definition comment_space_check :: "nat \<Rightarrow> string \<Rightarrow> diagnostic option" where
  "comment_space_check line_number line =
     (case findall_comment_first line of
        None \<Rightarrow> None
      | Some comment \<Rightarrow>
          if length (filter (\<lambda>c. c = CHR '' '') comment) < 2
          then Some (line_number, ''S004 At least two spaces before inline comments required'')
          else None)"

text \<open>
  S005: \<open>re.search("#.*TODO", line, re.IGNORECASE)\<close>: a \<open>#\<close>, then on the same line
  (\<open>.\<close> does not match a newline) the letters of TODO in either case.
\<close>

definition to_upper :: "char \<Rightarrow> char" where
  "to_upper c = (if is_lower c then char_of (of_char c - (32::nat)) else c)"

fun todo_after :: "string \<Rightarrow> bool" where
  "todo_after [] = False"
| "todo_after (c # cs) =
     (map to_upper (take 4 (c # cs)) = ''TODO'' \<or> (c \<noteq> newline \<and> todo_after cs))"

fun todo_search :: "string \<Rightarrow> bool" where
  "todo_search [] = False"
| "todo_search (c # cs) = ((c = CHR ''#'' \<and> todo_after cs) \<or> todo_search cs)"

definition todo_check :: "nat \<Rightarrow> string \<Rightarrow> diagnostic option" where
  "todo_check line_number line =
     (if todo_search line then Some (line_number, ''S005 TODO found'') else None)"

text \<open>
  S007: \<open>re.match("^ *(def|class)", line)\<close> selects the lines whose first characters
  after the leading spaces are \<open>def\<close> or \<open>class\<close>; \<open>re.findall("(?! )\w*", line)[0]\<close> is
  the run of word characters at the first position that holds no space; the rule
  fires unless \<open>re.match("^ *(def|class) [\w]", line)\<close> succeeds.
\<close>

definition construction_match :: "string \<Rightarrow> bool" where
  "construction_match line =
     (let s = lstrip_spaces line in startswith s ''def'' \<or> startswith s ''class'')"

definition one_space_word :: "string \<Rightarrow> bool" where
  "one_space_word s = (case s of c # d # _ \<Rightarrow> c = CHR '' '' \<and> is_word d | _ \<Rightarrow> False)"

definition construction_one_space_match :: "string \<Rightarrow> bool" where
  "construction_one_space_match line =
     (let s = lstrip_spaces line
      in (startswith s ''def'' \<and> one_space_word (drop 3 s))
         \<or> (startswith s ''class'' \<and> one_space_word (drop 5 s)))"

definition findall_words_0 :: "string \<Rightarrow> string" where
  "findall_words_0 line = takeWhile is_word (lstrip_spaces line)"

definition construction_space_check :: "nat \<Rightarrow> string \<Rightarrow> diagnostic option" where
  "construction_space_check line_number line =
     (if construction_match line
      then (let construction_name = findall_words_0 line
            in if \<not> construction_one_space_match line
               then Some (line_number, ''S007 Too many spaces after '' @ construction_name)
               else None)
      else None)"

text \<open>
  S008, for lines that begin with \<open>class\<close>: \<open>re.findall("(?! )\w*", line)[1]\<close> is the
  second match, the run of word characters at the first position after the first
  match that holds no space (an empty run where no word character stands there).
  \<open>re.sub("^__|__$", "", name)\<close> removes two underscores at the start and, from what then
  remains, two at the end. The name is CamelCase when it matches \<open>^[A-Z][A-Za-z]*$\<close>.
\<close>

definition findall_words_1 :: "string \<Rightarrow> string" where
  "findall_words_1 line =
     takeWhile is_word (lstrip_spaces (dropWhile is_word (lstrip_spaces line)))"

definition strip_dunder :: "string \<Rightarrow> string" where
  "strip_dunder name =
     (let n1 = (if startswith name ''__'' then drop 2 name else name)
      in if endswith n1 ''__'' then take (length n1 - 2) n1 else n1)"

definition camel_case_match :: "string \<Rightarrow> bool" where
  "camel_case_match s =
     (case s of [] \<Rightarrow> False
      | c # cs \<Rightarrow> is_upper c \<and> at_end (dropWhile (\<lambda>x. is_upper x \<or> is_lower x) cs))"

definition class_case_check :: "nat \<Rightarrow> string \<Rightarrow> diagnostic option" where
  "class_case_check line_number line =
     (if startswith line ''class''
      then (let class_name = strip_dunder (findall_words_1 line)
            in if \<not> camel_case_match class_name
               then Some (line_number,
                      ''S008 Class name '' @ class_name @ '' should use CamelCase'')
               else None)
      else None)"

section \<open>The blank-line pass\<close>

text \<open>
  A Python \<open>dict\<close> is an association list with one entry per key, in insertion order:
  \<open>d[k] = v\<close> is \<^const>\<open>AList.update\<close>, which replaces the value of a key that is present
  and appends the entry otherwise.

  \<open>re.match("^\s*$", line)\<close>: whitespace up to the end of the line.
\<close>

definition blank_match :: "string \<Rightarrow> bool" where
  "blank_match line = at_end (dropWhile is_space line)"

definition S006_message :: string where
  "S006_message = ''S006 More than two blank lines used before this line''"

text \<open>One turn of the loop, on the pair of \<open>num_blanks\<close> and \<open>blanks_dict\<close>.\<close>

definition blank_step :: "nat \<times> (nat \<times> string) list \<Rightarrow> nat \<times> string \<Rightarrow> nat \<times> (nat \<times> string) list" where
  "blank_step st entry =
     (case st of (num_blanks, blanks_dict) \<Rightarrow>
      case entry of (line_number, line) \<Rightarrow>
        if num_blanks \<le> 2
        then (if blank_match line then (num_blanks + 1, blanks_dict) else (0, blanks_dict))
        else (if \<not> blank_match line
              then (0, AList.update (line_number + 1) S006_message blanks_dict)
              else (num_blanks, blanks_dict)))"

definition blank_line_check :: "string list \<Rightarrow> (nat \<times> string) list" where
  "blank_line_check file = snd (foldl blank_step (0, []) (enumerate 0 file))"

text \<open>
  The length of the run of blank lines that ends a list of lines, and the lines of a
  file that stand right after a run of more than two blank lines: line \<open>k\<close> (counted
  from 1) is one when it is not blank and the lines before it end with such a run.
\<close>

definition blank_run :: "string list \<Rightarrow> nat" where
  "blank_run pre = length (takeWhile blank_match (rev pre))"

definition after_long_blank_run :: "string list \<Rightarrow> nat \<Rightarrow> bool" where
  "after_long_blank_run file k =
     (1 \<le> k \<and> k \<le> length file \<and> \<not> blank_match (file ! (k - 1))
      \<and> 2 < blank_run (take (k - 1) file))"

section \<open>The syntax-tree pass\<close>

text \<open>
  The nodes of the tree that \<open>ast.parse\<close> returns. A node kind that no check reads is
  \<open>Other\<close> with its child nodes. The other kinds keep the fields that are nodes, in the
  order in which \<open>ast.iter_child_nodes\<close> yields them, and the attributes the checks
  read. An assignment has at least one target, so the node holds the first one apart
  from the rest. An entry of \<open>kw_defaults\<close> or of the keys of a dict display can be
  \<open>None\<close>, which is no child node. The field \<open>ctx\<close> of a name, an attribute, a
  subscript, a tuple and a list is a node (\<open>Load\<close>, \<open>Store\<close> or \<open>Del\<close>) without
  fields; as a child it is \<open>expr_context\<close>.
\<close>

datatype node =
    Module "node list"
  | FunctionDef string node "node list" "node list" "node option" nat
  | Arguments "arg list" "arg list" "arg option" "arg list" "node option list" "arg option"
      "node list"
  | ArgNode arg
  | Assign node "node list" node nat
  | Name string nat
  | Attribute node string nat
  | Subscript node node nat
  | TupleDisplay "node list" nat
  | ListDisplay "node list" nat
  | SetDisplay "node list" nat
  | DictDisplay "node option list" "node list" nat
  | Other "node list"
and arg = Arg string "node option" nat

definition expr_context :: node where
  "expr_context = Other []"

fun opt_nodes :: "node option list \<Rightarrow> node list" where
  "opt_nodes [] = []"
| "opt_nodes (None # xs) = opt_nodes xs"
| "opt_nodes (Some n # xs) = n # opt_nodes xs"

fun iter_child_nodes :: "node \<Rightarrow> node list" where
  "iter_child_nodes (Module body) = body"
| "iter_child_nodes (FunctionDef name args body decorator_list returns lineno) =
     args # body @ decorator_list @ opt_nodes [returns]"
| "iter_child_nodes (Arguments posonlyargs args vararg kwonlyargs kw_defaults kwarg defaults) =
     map ArgNode posonlyargs @ map ArgNode args @ map ArgNode (case vararg of None \<Rightarrow> [] | Some a \<Rightarrow> [a])
     @ map ArgNode kwonlyargs @ opt_nodes kw_defaults
     @ map ArgNode (case kwarg of None \<Rightarrow> [] | Some a \<Rightarrow> [a]) @ defaults"
| "iter_child_nodes (ArgNode (Arg name annotation lineno)) = opt_nodes [annotation]"
| "iter_child_nodes (Assign target targets val lineno) = target # targets @ [val]"
| "iter_child_nodes (Name ident lineno) = [expr_context]"
| "iter_child_nodes (Attribute val attr lineno) = [val, expr_context]"
| "iter_child_nodes (Subscript val slice lineno) = [val, slice, expr_context]"
| "iter_child_nodes (TupleDisplay elts lineno) = elts @ [expr_context]"
| "iter_child_nodes (ListDisplay elts lineno) = elts @ [expr_context]"
| "iter_child_nodes (SetDisplay elts lineno) = elts"
| "iter_child_nodes (DictDisplay keys vals lineno) = opt_nodes keys @ vals"
| "iter_child_nodes (Other children) = children"

text \<open>
  \<open>ast.walk\<close> keeps a queue that starts with the root; it takes the node at the front,
  puts the node's children at the back and yields the node. The number of nodes
  waiting in the queue, each counted with its descendants, goes down at every turn.
\<close>

fun node_count :: "node \<Rightarrow> nat" and arg_count :: "arg \<Rightarrow> nat" where
  "node_count (Module body) = 1 + sum_list (map node_count body)"
| "node_count (FunctionDef name args body decorator_list returns lineno) =
     1 + node_count args + sum_list (map node_count body)
     + sum_list (map node_count decorator_list)
     + (case returns of None \<Rightarrow> 0 | Some r \<Rightarrow> node_count r)"
| "node_count (Arguments posonlyargs args vararg kwonlyargs kw_defaults kwarg defaults) =
     1 + sum_list (map arg_count posonlyargs) + sum_list (map arg_count args)
     + (case vararg of None \<Rightarrow> 0 | Some a \<Rightarrow> arg_count a)
     + sum_list (map arg_count kwonlyargs)
     + sum_list (map (\<lambda>k. case k of None \<Rightarrow> 0 | Some r \<Rightarrow> node_count r) kw_defaults)
     + (case kwarg of None \<Rightarrow> 0 | Some a \<Rightarrow> arg_count a)
     + sum_list (map node_count defaults)"
| "node_count (ArgNode a) = arg_count a"
| "node_count (Assign target targets val lineno) =
     1 + node_count target + sum_list (map node_count targets) + node_count val"
| "node_count (Name ident lineno) = 2"
| "node_count (Attribute val attr lineno) = 2 + node_count val"
| "node_count (Subscript val slice lineno) = 2 + node_count val + node_count slice"
| "node_count (TupleDisplay elts lineno) = 2 + sum_list (map node_count elts)"
| "node_count (ListDisplay elts lineno) = 2 + sum_list (map node_count elts)"
| "node_count (SetDisplay elts lineno) = 1 + sum_list (map node_count elts)"
| "node_count (DictDisplay keys vals lineno) =
     1 + sum_list (map (\<lambda>k. case k of None \<Rightarrow> 0 | Some r \<Rightarrow> node_count r) keys)
     + sum_list (map node_count vals)"
| "node_count (Other children) = 1 + sum_list (map node_count children)"
| "arg_count (Arg name annotation lineno) =
     1 + (case annotation of None \<Rightarrow> 0 | Some r \<Rightarrow> node_count r)"

function walk_queue :: "node list \<Rightarrow> node list" where
  "walk_queue [] = []"
| "walk_queue (n # todo) = n # walk_queue (todo @ iter_child_nodes n)"
  by pat_completeness auto
termination
proof (relation "measure (\<lambda>todo. sum_list (map node_count todo))")
  show "wf (measure (\<lambda>todo. sum_list (map node_count todo)))" by simp
next
  fix n :: node and todo :: "node list"
  have opt: "sum_list (map node_count (opt_nodes xs))
      = sum_list (map (\<lambda>k. case k of None \<Rightarrow> 0 | Some r \<Rightarrow> node_count r) xs)" for xs
    by (induction xs rule: opt_nodes.induct) auto
  have "Suc (sum_list (map node_count (iter_child_nodes n))) = node_count n"
  proof (cases n)
    case (FunctionDef name args body decorator_list returns lineno)
    then show ?thesis by (cases returns) auto
  next
    case (Arguments posonlyargs args vararg kwonlyargs kw_defaults kwarg defaults)
    then show ?thesis
      by (cases vararg; cases kwarg) (auto simp: opt comp_def)
  next
    case (ArgNode a)
    then show ?thesis
    proof (cases a)
      case (Arg name annotation lineno)
      with ArgNode show ?thesis by (cases annotation) auto
    qed
  next
    case (DictDisplay keys vals lineno)
    then show ?thesis by (auto simp: opt)
  qed (auto simp: expr_context_def)
  then have "sum_list (map node_count (iter_child_nodes n)) < node_count n"
    by arith
  then show "(todo @ iter_child_nodes n, n # todo)
      \<in> measure (\<lambda>todo. sum_list (map node_count todo))"
    by simp
qed

definition walk :: "node \<Rightarrow> node list" where
  "walk tree = walk_queue [tree]"

text \<open>
  The checks of \<open>ast_checks\<close>; each takes \<open>ast_errors_dict\<close> and returns it updated.
  \<open>re.match(snake_case, name)\<close> with \<open>^[a-z0-9_]+$\<close>: at least one character of the
  class, and nothing after the last one.
\<close>

definition snake_char :: "char \<Rightarrow> bool" where
  "snake_char c = (is_lower c \<or> is_digit c \<or> c = CHR ''_'')"

definition snake_case_match :: "string \<Rightarrow> bool" where
  "snake_case_match s = (takeWhile snake_char s \<noteq> [] \<and> at_end (dropWhile snake_char s))"

definition S009_message :: "string \<Rightarrow> string" where
  "S009_message name = ''S009 Function name '' @ name @ '' should use snake_case''"

definition S010_message :: "string \<Rightarrow> string" where
  "S010_message name = ''S010 Argument name '' @ name @ '' should be snake_case''"

definition S011_message :: "string \<Rightarrow> string" where
  "S011_message name = ''S011 Variable name '' @ name @ '' should use snake_case''"

definition S012_message :: string where
  "S012_message = ''S012 Default argument value is mutable''"

definition function_case_check :: "string \<Rightarrow> nat \<Rightarrow> (nat \<times> string) list \<Rightarrow> (nat \<times> string) list" where
  "function_case_check name lineno ast_errors_dict =
     (if \<not> snake_case_match name
      then AList.update lineno (S009_message name) ast_errors_dict
      else ast_errors_dict)"

fun argument_case_check :: "arg \<Rightarrow> (nat \<times> string) list \<Rightarrow> (nat \<times> string) list" where
  "argument_case_check (Arg name annotation lineno) ast_errors_dict =
     (if \<not> snake_case_match name
      then AList.update lineno (S010_message name) ast_errors_dict
      else ast_errors_dict)"

text \<open>
  Only a \<open>Name\<close> has the attribute \<open>id\<close>; on any other target the AttributeError is
  caught and the check does nothing.
\<close>

fun variable_case_check :: "node \<Rightarrow> nat \<Rightarrow> (nat \<times> string) list \<Rightarrow> (nat \<times> string) list" where
  "variable_case_check (Name ident l) lineno ast_errors_dict =
     (if \<not> snake_case_match ident
      then AList.update lineno (S011_message ident) ast_errors_dict
      else ast_errors_dict)"
| "variable_case_check target lineno ast_errors_dict = ast_errors_dict"

text \<open>The check returns whether it wrote (\<open>True\<close>, or \<open>None\<close>) together with the dict.\<close>

fun defval_multability_check :: "node \<Rightarrow> (nat \<times> string) list \<Rightarrow> bool \<times> (nat \<times> string) list" where
  "defval_multability_check (ListDisplay elts lineno) ast_errors_dict =
     (True, AList.update lineno S012_message ast_errors_dict)"
| "defval_multability_check (SetDisplay elts lineno) ast_errors_dict =
     (True, AList.update lineno S012_message ast_errors_dict)"
| "defval_multability_check (DictDisplay keys vals lineno) ast_errors_dict =
     (True, AList.update lineno S012_message ast_errors_dict)"
| "defval_multability_check dval ast_errors_dict = (False, ast_errors_dict)"

text \<open>The loop over \<open>node.defaults\<close>, which the first hit leaves.\<close>

fun defaults_loop :: "node list \<Rightarrow> (nat \<times> string) list \<Rightarrow> (nat \<times> string) list" where
  "defaults_loop [] ast_errors_dict = ast_errors_dict"
| "defaults_loop (defval # rest) ast_errors_dict =
     (case defval_multability_check defval ast_errors_dict of
        (True, d) \<Rightarrow> d
      | (False, d) \<Rightarrow> defaults_loop rest d)"

text \<open>The body of the loop over the nodes.\<close>

fun visit :: "(nat \<times> string) list \<Rightarrow> node \<Rightarrow> (nat \<times> string) list" where
  "visit d (FunctionDef name args body decorator_list returns lineno) =
     function_case_check name lineno d"
| "visit d (Arguments posonlyargs args vararg kwonlyargs kw_defaults kwarg defaults) =
     defaults_loop defaults (foldl (\<lambda>d a. argument_case_check a d) d args)"
| "visit d (Assign target targets val lineno) = variable_case_check target lineno d"
| "visit d n = d"

definition ast_checks :: "node \<Rightarrow> (nat \<times> string) list" where
  "ast_checks tree = foldl visit [] (walk tree)"

text \<open>
  The assignments to \<open>ast_errors_dict\<close> that the body of the loop makes for one node, in
  the order in which it makes them, and those of the whole pass. They are related to
  \<^const>\<open>visit\<close> and \<^const>\<open>ast_checks\<close> by the lemmas \<open>visit_writes\<close> and
  \<open>ast_checks_writes\<close> below.
\<close>

fun arg_writes :: "arg \<Rightarrow> diagnostic list" where
  "arg_writes (Arg name annotation lineno) =
     (if \<not> snake_case_match name then [(lineno, S010_message name)] else [])"

fun is_mutable_literal :: "node \<Rightarrow> bool" where
  "is_mutable_literal (ListDisplay elts lineno) = True"
| "is_mutable_literal (SetDisplay elts lineno) = True"
| "is_mutable_literal (DictDisplay keys vals lineno) = True"
| "is_mutable_literal n = False"

fun literal_lineno :: "node \<Rightarrow> nat" where
  "literal_lineno (ListDisplay elts lineno) = lineno"
| "literal_lineno (SetDisplay elts lineno) = lineno"
| "literal_lineno (DictDisplay keys vals lineno) = lineno"
| "literal_lineno n = 0"

fun defaults_writes :: "node list \<Rightarrow> diagnostic list" where
  "defaults_writes [] = []"
| "defaults_writes (defval # rest) =
     (if is_mutable_literal defval then [(literal_lineno defval, S012_message)]
      else defaults_writes rest)"

fun node_writes :: "node \<Rightarrow> diagnostic list" where
  "node_writes (FunctionDef name args body decorator_list returns lineno) =
     (if \<not> snake_case_match name then [(lineno, S009_message name)] else [])"
| "node_writes (Arguments posonlyargs args vararg kwonlyargs kw_defaults kwarg defaults) =
     concat (map arg_writes args) @ defaults_writes defaults"
| "node_writes (Assign (Name ident l) targets val lineno) =
     (if \<not> snake_case_match ident then [(lineno, S011_message ident)] else [])"
| "node_writes n = []"

definition ast_writes :: "node \<Rightarrow> diagnostic list" where
  "ast_writes tree = concat (map node_writes (walk tree))"

definition apply_writes :: "(nat \<times> string) list \<Rightarrow> diagnostic list \<Rightarrow> (nat \<times> string) list" where
  "apply_writes d ws = foldl (\<lambda>d (k, v). AList.update k v d) d ws"

text \<open>A node occurs in a tree when it is the root or occurs in a child of the root.\<close>

inductive occurs_in :: "node \<Rightarrow> node \<Rightarrow> bool" where
  root: "occurs_in n n"
| child: "c \<in> set (iter_child_nodes n) \<Longrightarrow> occurs_in m c \<Longrightarrow> occurs_in m n"

section \<open>The analysis of a file\<close>

text \<open>
  \<open>errors_in_file\<close> maps a line number to the list of its messages: a message is
  appended to the list of its line, which is created empty when the line has none.
\<close>

definition append_error :: "(nat \<times> string list) list \<Rightarrow> diagnostic \<Rightarrow> (nat \<times> string list) list" where
  "append_error errors_in_file diag =
     (case diag of (ln, msg) \<Rightarrow>
        (case map_of errors_in_file ln of
           None \<Rightarrow> AList.update ln ([] @ [msg]) errors_in_file
         | Some msgs \<Rightarrow> AList.update ln (msgs @ [msg]) errors_in_file))"

definition line_checks :: "(nat \<Rightarrow> string \<Rightarrow> diagnostic option) list" where
  "line_checks = [line_length_check, indentation_check, semicolon_check, comment_space_check,
     todo_check, construction_space_check, class_case_check]"

text \<open>
  A check that returns \<open>None\<close> makes the unpacking raise the TypeError that the loop
  catches to go on with the next check.
\<close>

definition check_line :: "(nat \<times> string list) list \<Rightarrow> nat \<times> string \<Rightarrow> (nat \<times> string list) list" where
  "check_line errors_in_file entry =
     (case entry of (line_number, line) \<Rightarrow>
        foldl (\<lambda>d check. case check (line_number + 1) line of
                            None \<Rightarrow> d
                          | Some diag \<Rightarrow> append_error d diag)
          errors_in_file line_checks)"

datatype error = SyntaxError

text \<open>
  \<open>check_file\<close> on the text of the file. \<open>ast.parse\<close> is a parameter: it returns the
  tree, or raises, and nothing in \<open>check_file\<close> catches what it raises.
\<close>

definition check_file :: "(string \<Rightarrow> error + node) \<Rightarrow> string \<Rightarrow> error + (nat \<times> string list) list" where
  "check_file parse text =
     (let file = file_lines text;
          errors1 = foldl check_line [] (enumerate 0 file);
          blank_lines = blank_line_check file;
          errors2 = foldl append_error errors1 blank_lines
      in case parse text of
           Inl err \<Rightarrow> Inl err
         | Inr tree \<Rightarrow> Inr (foldl append_error errors2 (ast_checks tree)))"

section \<open>The report\<close>

text \<open>\<open>str\<close> of a line number.\<close>

fun str_nat :: "nat \<Rightarrow> string" where
  "str_nat n =
     (if n < 10 then [char_of (48 + n)] else str_nat (n div 10) @ [char_of (48 + n mod 10)])"

text \<open>
  The rows of one file in the order in which they are printed: the items of the dict
  sorted (as pairs, so by line number, the keys of a dict being distinct), and the
  messages of each line sorted as strings.
\<close>

definition file_rows :: "(nat \<times> string list) list \<Rightarrow> diagnostic list" where
  "file_rows errors_dict =
     concat (map (\<lambda>(line, error_list). map (\<lambda>err. (line, err)) (sort error_list))
       (sort errors_dict))"

definition format_row :: "string \<Rightarrow> diagnostic \<Rightarrow> string" where
  "format_row path row = (case row of (line, err) \<Rightarrow>
     path @ '': Line '' @ str_nat line @ '': '' @ err)"

definition print_results :: "(string \<times> (nat \<times> string list) list) list \<Rightarrow> string list" where
  "print_results all_errors =
     concat (map (\<lambda>(path, errors_dict). map (format_row path) (file_rows errors_dict))
       all_errors)"

section \<open>The tree pass as a sequence of writes\<close>

lemma apply_writes_append: "apply_writes d (xs @ ys) = apply_writes (apply_writes d xs) ys"
  by (simp add: apply_writes_def)

lemma apply_writes_Nil: "apply_writes d [] = d"
  by (simp add: apply_writes_def)

lemma apply_writes_single: "apply_writes d [(k, v)] = AList.update k v d"
  by (simp add: apply_writes_def)

lemma args_loop_writes:
  "foldl (\<lambda>d a. argument_case_check a d) d args = apply_writes d (concat (map arg_writes args))"
proof (induction args arbitrary: d)
  case Nil
  show ?case by (simp add: apply_writes_Nil)
next
  case (Cons a args)
  obtain name annotation lineno where a: "a = Arg name annotation lineno"
    by (cases a)
  have "argument_case_check a d = apply_writes d (arg_writes a)"
    by (simp add: a apply_writes_Nil apply_writes_single)
  with Cons show ?case
    by (simp add: apply_writes_append)
qed

lemma defaults_loop_writes: "defaults_loop defaults d = apply_writes d (defaults_writes defaults)"
proof (induction defaults arbitrary: d)
  case Nil
  show ?case by (simp add: apply_writes_Nil)
next
  case (Cons defval rest)
  then show ?case
    by (cases defval) (simp_all add: apply_writes_single)
qed

lemma visit_writes: "visit d n = apply_writes d (node_writes n)"
proof (cases n)
  case (FunctionDef name args body decorator_list returns lineno)
  then show ?thesis
    by (simp add: function_case_check_def apply_writes_Nil apply_writes_single)
next
  case (Arguments posonlyargs args vararg kwonlyargs kw_defaults kwarg defaults)
  then show ?thesis
    by (simp add: args_loop_writes defaults_loop_writes apply_writes_append)
next
  case (Assign target targets val lineno)
  then show ?thesis
    by (cases target) (simp_all add: apply_writes_Nil apply_writes_single)
qed (simp_all add: apply_writes_Nil)

lemma foldl_visit_writes: "foldl visit d ns = apply_writes d (concat (map node_writes ns))"
  by (induction ns arbitrary: d) (simp_all add: apply_writes_Nil visit_writes apply_writes_append)

lemma ast_checks_writes: "ast_checks tree = apply_writes [] (ast_writes tree)"
  by (simp add: ast_checks_def ast_writes_def foldl_visit_writes)

lemma distinct_apply_writes:
  "distinct (map fst d) \<Longrightarrow> distinct (map fst (apply_writes d ws))"
  by (induction ws arbitrary: d) (auto simp: apply_writes_def distinct_update)

lemma map_of_apply_writes:
  "map_of (apply_writes d ws) = map_of d ++ map_of (rev ws)"
proof (induction ws arbitrary: d)
  case Nil
  show ?case by (simp add: apply_writes_Nil)
next
  case (Cons w ws)
  obtain k v where w: "w = (k, v)" by (cases w)
  have "apply_writes d (w # ws) = apply_writes (AList.update k v d) ws"
    by (simp add: apply_writes_def w)
  also have "map_of \<dots> = map_of (AList.update k v d) ++ map_of (rev ws)"
    by (rule Cons.IH)
  also have "map_of (AList.update k v d) = map_of d ++ map_of [(k, v)]"
    by (simp add: update_conv')
  finally show ?case
    by (simp only: w rev.simps map_of_append map_add_assoc)
qed



lemma walk_queue_sound:
  "m \<in> set (walk_queue todo) \<Longrightarrow> \<exists>n \<in> set todo. occurs_in m n"
proof (induction todo rule: walk_queue.induct)
  case 1
  then show ?case by simp
next
  case (2 x todo)
  show ?case
  proof (cases "m = x")
    case True
    then show ?thesis by (auto intro: occurs_in.root)
  next
    case False
    with "2.prems" have "m \<in> set (walk_queue (todo @ iter_child_nodes x))" by simp
    with "2.IH" obtain n where n: "n \<in> set (todo @ iter_child_nodes x)" "occurs_in m n"
      by blast
    then show ?thesis by (auto intro: occurs_in.child)
  qed
qed



section \<open>Line length (S001)\<close>

text \<open>
  Claim C9 says that S001 is produced for a line if and only if its content, without
  the newline that ends it, is longer than 79 characters. The lines that
  \<^const>\<open>check_file\<close> passes to \<^const>\<open>line_length_check\<close> still carry their newline, so a
  line of exactly 79 characters that is followed by a newline has length 80 and is
  reported. The file below is one such line, \<open>a\<close> 79 times and a newline.
\<close>

theorem line_of_79_characters_is_too_long:
  "check_file (\<lambda>text. Inr (Module [Other [Name (replicate 79 (CHR ''a'')) 1]]))
       (replicate 79 (CHR ''a'') @ [newline])
     = Inr [(1, [''S001 Too long''])]"
  by code_simp

section \<open>Spaces before an inline comment (S004)\<close>

text \<open>
  Claim C6 says that a line that is a comment from its first character that is not
  whitespace never produces S004. The \<open>\S\<close> of the pattern also matches a \<open>#\<close>, so
  a comment line with a second \<open>#\<close> in it is taken for code followed by a comment:
  \<open>## note\<close> is reported.
\<close>

theorem comment_only_line_reported:
  "comment_space_check 1 (''## note'' @ [newline])
     = Some (1, ''S004 At least two spaces before inline comments required'')"
  by code_simp

section \<open>Spaces after def and class (S007)\<close>

text \<open>
  Claim C7 says that S007 is produced if and only if the keyword \<open>def\<close> or \<open>class\<close> at
  the start of the line is followed by more than one space. The pattern that selects
  the lines asks for the letters only, not for the end of the word, so a line that
  begins with a longer word such as \<open>default\<close> is reported, although it holds no
  keyword and no run of spaces.
\<close>

theorem longer_word_reported:
  "construction_space_check 1 (''default = 1'' @ [newline])
     = Some (1, ''S007 Too many spaces after default'')"
  by code_simp

section \<open>The diagnostics of the tree pass\<close>






section \<open>Mutable default values\<close>





lemma distinct_keys_filter:
  "distinct (map fst xs) \<Longrightarrow> length (filter (\<lambda>entry. fst entry = k) xs) \<le> 1"
proof (induction xs)
  case Nil
  show ?case by simp
next
  case (Cons x xs)
  show ?case
  proof (cases "fst x = k")
    case True
    with Cons.prems have "k \<notin> fst ` set xs"
      by simp
    then have "\<forall>entry \<in> set xs. fst entry \<noteq> k"
      by blast
    then have "filter (\<lambda>entry. fst entry = k) xs = []"
      by (simp add: filter_empty_conv)
    with True show ?thesis by simp
  next
    case False
    with Cons show ?thesis by simp
  qed
qed



section \<open>One message per line in the result of the tree pass\<close>

text \<open>
  Claim C10: the result of \<^const>\<open>ast_checks\<close> has at most one entry for a line number, so
  at most one message of the tree pass for a line reaches the loop of \<^const>\<open>check_file\<close>
  that appends them; the message that the result holds for a line is the one written
  last for that line, and a line that was never written has none.
\<close>

theorem ast_checks_one_message_per_line:
  "distinct (map fst (ast_checks tree))
   \<and> length (filter (\<lambda>entry. fst entry = ln) (ast_checks tree)) \<le> 1
   \<and> (\<forall>ws msg ws'. ast_writes tree = ws @ (ln, msg) # ws' \<and> ln \<notin> fst ` set ws' \<longrightarrow>
         map_of (ast_checks tree) ln = Some msg)
   \<and> (ln \<notin> fst ` set (ast_writes tree) \<longrightarrow> map_of (ast_checks tree) ln = None)"
proof (intro conjI allI impI)
  show d: "distinct (map fst (ast_checks tree))"
    by (simp add: ast_checks_writes distinct_apply_writes)
  then show "length (filter (\<lambda>entry. fst entry = ln) (ast_checks tree)) \<le> 1"
    by (rule distinct_keys_filter)
next
  fix ws msg ws'
  assume a: "ast_writes tree = ws @ (ln, msg) # ws' \<and> ln \<notin> fst ` set ws'"
  then have "map_of (rev ws') ln = None"
    by (simp add: map_of_eq_None_iff)
  with a show "map_of (ast_checks tree) ln = Some msg"
    by (simp add: ast_checks_writes map_of_apply_writes map_add_def)
next
  assume "ln \<notin> fst ` set (ast_writes tree)"
  then show "map_of (ast_checks tree) ln = None"
    by (simp add: ast_checks_writes map_of_apply_writes map_of_eq_None_iff)
qed

theorem ast_checks_one_message_per_line_witness:
  "ast_writes (Module [FunctionDef ''myFunc''
       (Arguments [] [Arg ''X'' None 1] None [] [] None [ListDisplay [] 1])
       [Other []] [] None 1])
     = [(1, ''S009 Function name myFunc should use snake_case''),
         (1, ''S010 Argument name X should be snake_case'')]
        @ (1, ''S012 Default argument value is mutable'') # []
   \<and> (1::nat) \<notin> fst ` set ([] :: (nat \<times> string) list)
   \<and> map_of (ast_checks (Module [FunctionDef ''myFunc''
       (Arguments [] [Arg ''X'' None 1] None [] [] None [ListDisplay [] 1])
       [Other []] [] None 1])) 1 = Some ''S012 Default argument value is mutable''
   \<and> 2 \<notin> fst ` set (ast_writes (Module [FunctionDef ''myFunc''
       (Arguments [] [Arg ''X'' None 1] None [] [] None [ListDisplay [] 1])
       [Other []] [] None 1]))
   \<and> map_of (ast_checks (Module [FunctionDef ''myFunc''
       (Arguments [] [Arg ''X'' None 1] None [] [] None [ListDisplay [] 1])
       [Other []] [] None 1])) 2 = None"
proof -
  have w: "ast_writes (Module [FunctionDef ''myFunc''
       (Arguments [] [Arg ''X'' None 1] None [] [] None [ListDisplay [] 1])
       [Other []] [] None 1])
     = [(1, ''S009 Function name myFunc should use snake_case''),
         (1, ''S010 Argument name X should be snake_case'')]
        @ (1, ''S012 Default argument value is mutable'') # []"
    by code_simp
  have n: "2 \<notin> fst ` set (ast_writes (Module [FunctionDef ''myFunc''
       (Arguments [] [Arg ''X'' None 1] None [] [] None [ListDisplay [] 1])
       [Other []] [] None 1]))"
    unfolding w by simp
  have a: "\<forall>ws msg ws'. ast_writes (Module [FunctionDef ''myFunc''
       (Arguments [] [Arg ''X'' None 1] None [] [] None [ListDisplay [] 1])
       [Other []] [] None 1]) = ws @ (1, msg) # ws' \<and> 1 \<notin> fst ` set ws'
      \<longrightarrow> map_of (ast_checks (Module [FunctionDef ''myFunc''
       (Arguments [] [Arg ''X'' None 1] None [] [] None [ListDisplay [] 1])
       [Other []] [] None 1])) 1 = Some msg"
    using ast_checks_one_message_per_line [of "(Module [FunctionDef ''myFunc''
       (Arguments [] [Arg ''X'' None 1] None [] [] None [ListDisplay [] 1])
       [Other []] [] None 1])" 1] by blast
  have m1: "map_of (ast_checks (Module [FunctionDef ''myFunc''
       (Arguments [] [Arg ''X'' None 1] None [] [] None [ListDisplay [] 1])
       [Other []] [] None 1])) 1 = Some ''S012 Default argument value is mutable''"
  proof (rule a [rule_format])
    show "ast_writes (Module [FunctionDef ''myFunc''
       (Arguments [] [Arg ''X'' None 1] None [] [] None [ListDisplay [] 1])
       [Other []] [] None 1])
        = [(1, ''S009 Function name myFunc should use snake_case''),
         (1, ''S010 Argument name X should be snake_case'')]
        @ (1, ''S012 Default argument value is mutable'') # []
      \<and> 1 \<notin> fst ` set ([] :: (nat \<times> string) list)"
      using w by simp
  qed
  have m2: "map_of (ast_checks (Module [FunctionDef ''myFunc''
       (Arguments [] [Arg ''X'' None 1] None [] [] None [ListDisplay [] 1])
       [Other []] [] None 1])) 2 = None"
    using ast_checks_one_message_per_line [of "(Module [FunctionDef ''myFunc''
       (Arguments [] [Arg ''X'' None 1] None [] [] None [ListDisplay [] 1])
       [Other []] [] None 1])" 2] n by blast
  show ?thesis
    by (intro conjI) (rule w, simp, rule m1, rule n, rule m2)
qed


section \<open>A file that does not parse\<close>

text \<open>
  Claim C5: when \<open>ast.parse\<close> fails on the text of the file, \<^const>\<open>check_file\<close> returns
  no mapping, neither a partial nor an empty one; it fails with the error of the
  parser.
\<close>

theorem check_file_parse_failure:
  assumes "parse text = Inl err"
  shows "check_file parse text = Inl err \<and> (\<forall>d. check_file parse text \<noteq> Inr d)"
  using assms by (simp add: check_file_def Let_def)

theorem check_file_parse_failure_witness:
  "(\<lambda>text. Inl SyntaxError) ''def f(:'' = (Inl SyntaxError :: error + node)
   \<and> check_file (\<lambda>text. Inl SyntaxError) ''def f(:'' = Inl SyntaxError"
  using check_file_parse_failure [of "\<lambda>text. Inl SyntaxError" "''def f(:''" SyntaxError]
  by simp

section \<open>Runs of blank lines (S006)\<close>

lemma blank_run_snoc:
  "blank_run (pre @ [l]) = (if blank_match l then Suc (blank_run pre) else 0)"
  by (simp add: blank_run_def)

lemma after_long_blank_run_snoc:
  "after_long_blank_run (pre @ [l]) k =
     (after_long_blank_run pre k \<or> (k = Suc (length pre) \<and> \<not> blank_match l \<and> 2 < blank_run pre))"
proof (cases "k \<le> length pre")
  case True
  then show ?thesis
    by (cases k) (auto simp: after_long_blank_run_def nth_append)
next
  case False
  show ?thesis
  proof (cases "k = Suc (length pre)")
    case True
    then show ?thesis by (simp add: after_long_blank_run_def)
  next
    case False
    with \<open>\<not> k \<le> length pre\<close> show ?thesis by (simp add: after_long_blank_run_def)
  qed
qed

lemma enumerate_snoc: "enumerate 0 (xs @ [x]) = enumerate 0 xs @ [(length xs, x)]"
  by (simp add: enumerate_append_eq)

lemma blank_loop_invariant:
  "foldl blank_step (0, []) (enumerate 0 pre) = (num_blanks, blanks_dict) \<Longrightarrow>
     num_blanks = min 3 (blank_run pre) \<and> distinct (map fst blanks_dict)
     \<and> (\<forall>k. map_of blanks_dict k
            = (if after_long_blank_run pre k then Some S006_message else None))"
proof (induction pre arbitrary: num_blanks blanks_dict rule: rev_induct)
  case Nil
  then show ?case by (simp add: blank_run_def after_long_blank_run_def)
next
  case (snoc l pre)
  obtain nb d where st: "foldl blank_step (0, []) (enumerate 0 pre) = (nb, d)"
    by (cases "foldl blank_step (0, []) (enumerate 0 pre)")
  from snoc.IH [OF st] have nb: "nb = min 3 (blank_run pre)"
    and dist: "distinct (map fst d)"
    and look: "\<And>k. map_of d k = (if after_long_blank_run pre k then Some S006_message else None)"
    by simp_all
  from snoc.prems st have step: "blank_step (nb, d) (length pre, l) = (num_blanks, blanks_dict)"
    by (simp add: enumerate_snoc)
  show ?case
  proof (cases "nb \<le> 2")
    case True
    with nb have run: "blank_run pre = nb" by (simp add: min_def split: if_splits)
    from True step have d: "blanks_dict = d"
      and n: "num_blanks = (if blank_match l then nb + 1 else 0)"
      by (auto simp: blank_step_def split: if_splits)
    from True run have "\<not> 2 < blank_run pre" by simp
    with d dist look n run True show ?thesis
      by (simp add: blank_run_snoc after_long_blank_run_snoc)
  next
    case False
    with nb have run: "2 < blank_run pre" and nb3: "nb = 3"
      by (simp_all add: min_def split: if_splits)
    show ?thesis
    proof (cases "blank_match l")
      case True
      with False step have "blanks_dict = d" "num_blanks = nb"
        by (auto simp: blank_step_def)
      with True dist look nb3 run show ?thesis
        by (simp add: blank_run_snoc after_long_blank_run_snoc)
    next
      case nonblank: False
      with False step have d: "blanks_dict = AList.update (length pre + 1) S006_message d"
        and n: "num_blanks = 0"
        by (auto simp: blank_step_def)
      have "\<not> after_long_blank_run pre (Suc (length pre))"
        by (simp add: after_long_blank_run_def)
      with d n nonblank dist look run show ?thesis
        by (auto simp: blank_run_snoc after_long_blank_run_snoc distinct_update update_conv')
    qed
  qed
qed

lemma blank_loop_result:
  "distinct (map fst (blank_line_check file))
   \<and> map_of (blank_line_check file) k
       = (if after_long_blank_run file k then Some S006_message else None)"
proof -
  obtain nb d where st: "foldl blank_step (0, []) (enumerate 0 file) = (nb, d)"
    by (cases "foldl blank_step (0, []) (enumerate 0 file)")
  from blank_loop_invariant [OF st] st show ?thesis
    by (simp add: blank_line_check_def)
qed

lemma blank_run_maximal:
  assumes "pre = [] \<or> \<not> blank_match (last pre)" and "\<forall>b \<in> set run. blank_match b"
  shows "blank_run (pre @ run) = length run"
proof -
  from assms(1) have "takeWhile blank_match (rev pre) = []"
    by (cases pre rule: rev_cases) auto
  moreover have "takeWhile blank_match (rev run @ rev pre)
      = rev run @ takeWhile blank_match (rev pre)"
    using assms(2) by (intro takeWhile_append2) simp
  ultimately show ?thesis
    by (simp add: blank_run_def)
qed

text \<open>
  Claim C4: starting with the counter at 0, the blank-line pass reports S006 exactly
  once for every maximal run of more than two whitespace-only lines, at the line that
  is not blank and follows the run. The result has one entry per key; line \<open>k\<close> has
  an entry exactly when it is not blank and the run of blank lines before it is longer
  than 2. So for a maximal run \<open>run\<close> followed by a line \<open>l\<close> that is not blank, the
  line of \<open>l\<close> is reported when the run is longer than 2 and is not reported when
  its length is 0, 1 or 2; and every reported line is a line of the file that is not
  blank, so a run that no such line follows is not reported.
\<close>

theorem blank_line_check_long_runs:
  "distinct (map fst (blank_line_check file))
   \<and> map_of (blank_line_check file) k
       = (if after_long_blank_run file k then Some S006_message else None)
   \<and> ((pre = [] \<or> \<not> blank_match (last pre)) \<and> (\<forall>b \<in> set run. blank_match b)
        \<and> \<not> blank_match l \<longrightarrow>
      map_of (blank_line_check (pre @ run @ l # post)) (length pre + length run + 1)
        = (if 2 < length run then Some S006_message else None))
   \<and> (k \<in> fst ` set (blank_line_check file) \<longrightarrow>
        1 \<le> k \<and> k \<le> length file \<and> \<not> blank_match (file ! (k - 1)))"
proof (intro conjI impI)
  show "distinct (map fst (blank_line_check file))"
    using blank_loop_result [of "file" k] by simp
  show "map_of (blank_line_check file) k
       = (if after_long_blank_run file k then Some S006_message else None)"
    using blank_loop_result [of "file" k] by simp
next
  assume a: "(pre = [] \<or> \<not> blank_match (last pre)) \<and> (\<forall>b \<in> set run. blank_match b)
        \<and> \<not> blank_match l"
  let ?file = "pre @ run @ l # post" and ?k = "length pre + length run + 1"
  have "take (?k - 1) ?file = pre @ run" by simp
  moreover have "?file ! (?k - 1) = l"
    by (simp add: nth_append)
  moreover from a have "blank_run (pre @ run) = length run"
    by (simp add: blank_run_maximal)
  ultimately have "after_long_blank_run ?file ?k = (2 < length run)"
    using a by (simp add: after_long_blank_run_def)
  then show "map_of (blank_line_check ?file) ?k
        = (if 2 < length run then Some S006_message else None)"
    using blank_loop_result [of ?file ?k] by simp
next
  assume "k \<in> fst ` set (blank_line_check file)"
  then have "map_of (blank_line_check file) k \<noteq> None"
    by (simp add: map_of_eq_None_iff)
  then have "after_long_blank_run file k"
    using blank_loop_result [of "file" k] by (simp split: if_splits)
  then show "1 \<le> k" and "k \<le> length file" and "\<not> blank_match (file ! (k - 1))"
    by (simp_all add: after_long_blank_run_def)
qed

text \<open>
  The file whose runs of blank lines have the lengths 0, 1, 2, 3, 4 and 5, each
  followed by one line of code: the lines after the runs of 3, 4 and 5 are reported.
\<close>

lemma blank_runs_example:
  "blank_line_check
     ([''a'' @ [newline], ''b'' @ [newline]]
      @ replicate 1 [newline] @ [''c'' @ [newline]]
      @ replicate 2 [newline] @ [''d'' @ [newline]]
      @ replicate 3 [newline] @ [''e'' @ [newline]]
      @ replicate 4 [newline] @ [''f'' @ [newline]]
      @ replicate 5 [newline] @ [''g'' @ [newline]])
   = [(11, ''S006 More than two blank lines used before this line''),
      (16, ''S006 More than two blank lines used before this line''),
      (22, ''S006 More than two blank lines used before this line'')]"
  by code_simp

theorem blank_line_check_long_runs_witness:
  "\<not> blank_match (last [''a'' @ [newline]]) \<and> blank_match [newline] \<and> \<not> blank_match ''b''
   \<and> map_of (blank_line_check ([''a'' @ [newline]] @ [[newline], [newline], [newline]] @ ''b'' # []))
        (length [''a'' @ [newline]] + length [[newline], [newline], [newline]] + 1)
      = Some ''S006 More than two blank lines used before this line''
   \<and> 5 \<in> fst ` set (blank_line_check [''a'' @ [newline], [newline], [newline], [newline], ''b''])
   \<and> \<not> blank_match ([''a'' @ [newline], [newline], [newline], [newline], ''b''] ! (5 - 1))"
proof -
  have b: "\<not> blank_match (last [''a'' @ [newline]])" "blank_match [newline]" "\<not> blank_match ''b''"
    by code_simp+
  have k: "5 \<in> fst ` set (blank_line_check [''a'' @ [newline], [newline], [newline], [newline], ''b''])"
    by code_simp
  have "map_of (blank_line_check ([''a'' @ [newline]] @ [[newline], [newline], [newline]] @ ''b'' # []))
        (length [''a'' @ [newline]] + length [[newline], [newline], [newline]] + 1)
      = Some ''S006 More than two blank lines used before this line''"
    using blank_line_check_long_runs [of "[]" 0 "[''a'' @ [newline]]"
        "[[newline], [newline], [newline]]" "''b''" "[]"] b
    by (simp add: S006_message_def)
  moreover have "\<not> blank_match ([''a'' @ [newline], [newline], [newline], [newline], ''b''] ! (5 - 1))"
    using blank_line_check_long_runs [of "[''a'' @ [newline], [newline], [newline], [newline], ''b'']" 5
        "[]" "[]" "''b''" "[]"] k
    by blast
  ultimately show ?thesis using b k by blast
qed

section \<open>The order of the report\<close>

lemma append_error_distinct:
  "distinct (map fst d) \<Longrightarrow> distinct (map fst (append_error d diag))"
  by (cases diag) (simp add: append_error_def distinct_update split: option.splits)

lemma foldl_append_error_distinct:
  "distinct (map fst d) \<Longrightarrow> distinct (map fst (foldl append_error d diags))"
  by (induction diags arbitrary: d) (simp_all add: append_error_distinct)

lemma checks_loop_distinct:
  "distinct (map fst d) \<Longrightarrow>
     distinct (map fst (foldl (\<lambda>d check. case check n line of None \<Rightarrow> d
                                 | Some diag \<Rightarrow> append_error d diag) d checks))"
  by (induction checks arbitrary: d) (simp_all add: append_error_distinct split: option.splits)

lemma check_line_distinct:
  "distinct (map fst d) \<Longrightarrow> distinct (map fst (check_line d entry))"
  by (cases entry) (simp add: check_line_def checks_loop_distinct)

lemma foldl_check_line_distinct:
  "distinct (map fst d) \<Longrightarrow> distinct (map fst (foldl check_line d entries))"
  by (induction entries arbitrary: d) (simp_all add: check_line_distinct)

lemma check_file_distinct:
  "check_file parse text = Inr errors_dict \<Longrightarrow> distinct (map fst errors_dict)"
  by (auto simp: check_file_def Let_def foldl_append_error_distinct foldl_check_line_distinct
      split: sum.splits)

lemma sorted_pairs_keys:
  fixes xs :: "(nat \<times> string list) list"
  shows "sorted xs \<Longrightarrow> sorted (map fst xs)"
  by (induction xs) fastforce+

lemma sorted_items_keys:
  fixes d :: "(nat \<times> string list) list"
  assumes "distinct (map fst d)"
  shows "sorted_wrt (<) (map fst (sort d))"
proof -
  have "sorted (map fst (sort d))"
    by (rule sorted_pairs_keys) simp
  moreover from assms have "distinct (map fst (sort d))"
    by (simp add: distinct_map)
  ultimately show ?thesis
    by (simp add: strict_sorted_iff)
qed

lemma sorted_line_group:
  fixes errs :: "string list"
  shows "sorted (map (\<lambda>err. (line :: nat, err)) (sort errs))"
proof -
  have "sorted ys \<Longrightarrow> sorted (map (\<lambda>err. (line, err)) ys)" for ys :: "string list"
    by (induction ys) auto
  then show ?thesis by simp
qed

lemma sorted_rows:
  fixes xs :: "(nat \<times> string list) list"
  shows "sorted_wrt (<) (map fst xs) \<Longrightarrow>
    sorted (concat (map (\<lambda>(line, error_list). map (\<lambda>err. (line, err)) (sort error_list)) xs))"
proof (induction xs)
  case Nil
  show ?case by simp
next
  case (Cons x xs)
  obtain line errs where x: "x = (line, errs)" by (cases x)
  from Cons.prems x have later: "\<forall>y \<in> set xs. line < fst y" and rest: "sorted_wrt (<) (map fst xs)"
    by auto
  from later have "\<forall>a \<in> set (map (\<lambda>err. (line, err)) (sort errs)).
      \<forall>b \<in> set (concat (map (\<lambda>(line, error_list). map (\<lambda>err. (line, err)) (sort error_list)) xs)).
        a \<le> b"
    by fastforce
  with Cons.IH [OF rest] sorted_line_group [of line errs] show ?case
    by (simp add: x sorted_append)
qed

lemma file_rows_sorted:
  "distinct (map fst errors_dict) \<Longrightarrow> sorted (file_rows errors_dict)"
  unfolding file_rows_def by (rule sorted_rows) (rule sorted_items_keys)

lemma take_mono_lex:
  fixes xs ys :: string
  shows "xs \<le> ys \<Longrightarrow> take n xs \<le> take n ys"
proof (induction n arbitrary: xs ys)
  case 0
  show ?case by simp
next
  case (Suc n)
  show ?case
  proof (cases xs)
    case Nil
    then show ?thesis by simp
  next
    case (Cons a as)
    with Suc.prems obtain b bs where ys: "ys = b # bs"
      by (cases ys) auto
    with Cons Suc.prems have "a < b \<or> a = b \<and> as \<le> bs" by simp
    with Suc.IH Cons ys show ?thesis by auto
  qed
qed

text \<open>
  Claim C3: for every file, the rows of the report, which \<^const>\<open>print_results\<close> prints in
  this order, are non-decreasing in line number, and rows with the same line number
  are in the ascending lexicographic order of their messages, so also of their codes,
  the first four characters of a message.
\<close>

theorem report_order:
  assumes "check_file parse text = Inr errors_dict"
  shows "print_results [(path, errors_dict)] = map (format_row path) (file_rows errors_dict)
    \<and> sorted (file_rows errors_dict)
    \<and> (\<forall>i j. i < j \<and> j < length (file_rows errors_dict) \<longrightarrow>
          fst (file_rows errors_dict ! i) \<le> fst (file_rows errors_dict ! j)
          \<and> (fst (file_rows errors_dict ! i) = fst (file_rows errors_dict ! j) \<longrightarrow>
               snd (file_rows errors_dict ! i) \<le> snd (file_rows errors_dict ! j)
               \<and> take 4 (snd (file_rows errors_dict ! i))
                   \<le> take 4 (snd (file_rows errors_dict ! j))))"
proof (intro conjI allI impI)
  show "print_results [(path, errors_dict)] = map (format_row path) (file_rows errors_dict)"
    by (simp add: print_results_def)
  from assms have "distinct (map fst errors_dict)"
    by (rule check_file_distinct)
  then show s: "sorted (file_rows errors_dict)"
    by (rule file_rows_sorted)
  fix i j
  assume ij: "i < j \<and> j < length (file_rows errors_dict)"
  with s have le: "file_rows errors_dict ! i \<le> file_rows errors_dict ! j"
    by (simp add: sorted_iff_nth_mono_less)
  then show "fst (file_rows errors_dict ! i) \<le> fst (file_rows errors_dict ! j)"
    by (auto simp: less_eq_prod_def)
  assume "fst (file_rows errors_dict ! i) = fst (file_rows errors_dict ! j)"
  with le show m: "snd (file_rows errors_dict ! i) \<le> snd (file_rows errors_dict ! j)"
    by (simp add: less_eq_prod_def)
  then show "take 4 (snd (file_rows errors_dict ! i)) \<le> take 4 (snd (file_rows errors_dict ! j))"
    by (rule take_mono_lex)
qed



theorem report_order_witness:
  "check_file (\<lambda>text. Inr (Module [Assign (Name ''X'' 1) [] (Other []) 1, Other [Other []]]))
      (''X = 1'' @ [newline] @ [newline] @ [newline] @ [newline] @ ''class  a:'' @ [newline]
        @ ''    pass'' @ [newline])
     = Inr [(5, [''S007 Too many spaces after class'', ''S008 Class name a should use CamelCase'',
             ''S006 More than two blank lines used before this line'']),
        (1, [''S011 Variable name X should use snake_case''])]
   \<and> sorted (file_rows [(5, [''S007 Too many spaces after class'', ''S008 Class name a should use CamelCase'',
             ''S006 More than two blank lines used before this line'']),
        (1, [''S011 Variable name X should use snake_case''])])
   \<and> print_results [(''a.py'', [(5, [''S007 Too many spaces after class'', ''S008 Class name a should use CamelCase'',
             ''S006 More than two blank lines used before this line'']),
        (1, [''S011 Variable name X should use snake_case''])])]
     = [''a.py: Line 1: S011 Variable name X should use snake_case'',
        ''a.py: Line 5: S006 More than two blank lines used before this line'',
        ''a.py: Line 5: S007 Too many spaces after class'',
        ''a.py: Line 5: S008 Class name a should use CamelCase'']"
proof -
  have h: "check_file (\<lambda>text. Inr (Module [Assign (Name ''X'' 1) [] (Other []) 1, Other [Other []]]))
      (''X = 1'' @ [newline] @ [newline] @ [newline] @ [newline] @ ''class  a:'' @ [newline]
        @ ''    pass'' @ [newline])
     = Inr [(5, [''S007 Too many spaces after class'', ''S008 Class name a should use CamelCase'',
             ''S006 More than two blank lines used before this line'']),
        (1, [''S011 Variable name X should use snake_case''])]"
    by code_simp
  have p: "map (format_row ''a.py'') (file_rows [(5, [''S007 Too many spaces after class'', ''S008 Class name a should use CamelCase'',
             ''S006 More than two blank lines used before this line'']),
        (1, [''S011 Variable name X should use snake_case''])])
     = [''a.py: Line 1: S011 Variable name X should use snake_case'',
        ''a.py: Line 5: S006 More than two blank lines used before this line'',
        ''a.py: Line 5: S007 Too many spaces after class'',
        ''a.py: Line 5: S008 Class name a should use CamelCase'']"
    by code_simp
  from report_order [OF h, of "''a.py''"] p h show ?thesis
    by simp
qed


end
